theory Spec2Isabelle
  imports Main "HOL-Library.Char_ord" "HOL-Library.List_Lexorder" "HOL-Library.Product_Lexorder"
begin

section \<open>Exceptions\<close>

text \<open>
  The exceptions the modelled code raises or catches. \<open>SpotifyException\<close> carries the two
  fields \<open>robust_api_call\<close> reads, \<open>http_status\<close> and the \<open>Retry-After\<close> entry of
  \<open>headers\<close>. \<open>Exception\<close> stands for any exception that is not a \<open>SpotifyException\<close>,
  with its message; \<open>MaxRetriesExceeded n\<close> is \<open>Exception(f"Max retries ({n}) exceeded")\<close>.
  \<open>AttributeError\<close>, \<open>ValueError\<close>, \<open>JSONDecodeError\<close> and \<open>KeyError\<close> are raised by
  the Python runtime (\<open>None.get\<close>, \<open>int\<close> of a non-number and \<open>time.sleep\<close> of a
  negative number, \<open>json.load\<close> of a file that holds no complete document, \<open>d[k]\<close> on
  a dictionary without the key \<open>k\<close>); \<open>ConversionException\<close> is raised by the database
  when a value does not fit its column.
\<close>

datatype retry_after_header =
    No_headers          \<comment> \<open>\<open>e.headers\<close> is \<open>None\<close>\<close>
  | Missing             \<comment> \<open>no \<open>Retry-After\<close> key: \<open>get\<close> returns the default 5\<close>
  | Seconds int         \<comment> \<open>a value \<open>int(...)\<close> accepts\<close>
  | Not_a_number        \<comment> \<open>a value \<open>int(...)\<close> rejects\<close>

datatype exn =
    is_SpotifyException: SpotifyException (http_status: int) (headers: retry_after_header)
  | Exception string
  | MaxRetriesExceeded nat
  | AttributeError
  | ValueError
  | JSONDecodeError
  | KeyError
  | ConversionException

section \<open>The retry wrapper: \<open>robust_api_call\<close> (fetch.py)\<close>

text \<open>
  \<open>time.sleep(s)\<close>: raises \<open>ValueError\<close> on a negative length, otherwise the length is
  appended to the log of sleeps.
\<close>

definition sleep :: "int \<Rightarrow> int list \<Rightarrow> exn + int list" where
  "sleep s sleeps = (if s < 0 then Inl ValueError else Inr (sleeps @ [s]))"

text \<open>\<open>int(e.headers.get('Retry-After', 5))\<close>.\<close>

fun retry_after_of :: "retry_after_header \<Rightarrow> exn + int" where
  "retry_after_of No_headers = Inl AttributeError"
| "retry_after_of Missing = Inr 5"
| "retry_after_of (Seconds n) = Inr n"
| "retry_after_of Not_a_number = Inl ValueError"

text \<open>
  The two \<open>except\<close> clauses of the loop body: what the handler does with the exception
  \<open>e\<close> raised by the wrapped call in iteration \<open>attempt\<close>. \<open>Inl\<close> is an exception leaving
  the wrapper, \<open>Inr sleeps'\<close> is the handler finishing, after which the \<open>for\<close> loop goes on
  to the next attempt.
\<close>

fun handle :: "nat \<Rightarrow> exn \<Rightarrow> int list \<Rightarrow> exn + int list" where
  "handle attempt (SpotifyException status hdr) sleeps =
     (if status = 429 then
        (case retry_after_of hdr of
           Inl err \<Rightarrow> Inl err
         | Inr retry_after \<Rightarrow> sleep (retry_after + 1) sleeps)
      else if status \<ge> 500 then sleep (2 ^ attempt + 1) sleeps
      else Inl (SpotifyException status hdr))"
| "handle attempt e sleeps = sleep (2 ^ attempt + 1) sleeps"

text \<open>
  The \<open>for attempt in range(max_retries)\<close> loop, over the list of attempts still to make.
  \<open>func attempt\<close> is the outcome of the wrapped call made in iteration \<open>attempt\<close>
  (\<open>Inl\<close> an exception, \<open>Inr\<close> the returned value), so a call may fail at one attempt and
  succeed at a later one. The state is the log of sleeps and the number of invocations
  of \<open>func\<close> so far. \<open>max_retries\<close> is the total number of attempts, the statement
  after the loop raises when none returned.
\<close>

fun retry_loop ::
  "(nat \<Rightarrow> exn + 'a) \<Rightarrow> nat \<Rightarrow> nat list \<Rightarrow> int list \<Rightarrow> nat \<Rightarrow> (exn + 'a) \<times> int list \<times> nat" where
  "retry_loop func max_retries [] sleeps invocations = (Inl (MaxRetriesExceeded max_retries), sleeps, invocations)"
| "retry_loop func max_retries (attempt # rest) sleeps invocations =
     (case func attempt of
        Inr v \<Rightarrow> (Inr v, sleeps, Suc invocations)
      | Inl e \<Rightarrow>
          (case handle attempt e sleeps of
             Inl err \<Rightarrow> (Inl err, sleeps, Suc invocations)
           | Inr sleeps' \<Rightarrow> retry_loop func max_retries rest sleeps' (Suc invocations)))"

definition robust_api_call :: "(nat \<Rightarrow> exn + 'a) \<Rightarrow> nat \<Rightarrow> (exn + 'a) \<times> int list \<times> nat" where
  "robust_api_call func max_retries = retry_loop func max_retries [0..<max_retries] [] 0"

section \<open>Checkpoint files\<close>

text \<open>
  A checkpoint is the JSON object the program dumps into a checkpoint file: a dictionary
  in which any key may be absent (\<open>None\<close>), read with \<open>data.get(key, default)\<close>. The
  fields are the keys the fetcher (\<open>tracks\<close>, \<open>next_offset\<close>, \<open>complete\<close>, \<open>error\<close>)
  and the writer (\<open>playlist_id\<close>, \<open>tracks_added\<close>, \<open>complete\<close>, \<open>error\<close>) write,
  prefixed with \<open>ck_\<close>. \<open>ck_error\<close> keeps the exception where the source stores
  \<open>str(e)\<close>. The \<open>timestamp\<close> key (\<open>datetime.now()\<close>) is written and never read; it is
  left out. Offsets and counts are natural numbers: the program only ever writes
  non-negative ones.
\<close>

record 'a checkpoint =
  ck_tracks :: "'a list option"
  ck_next_offset :: "nat option"
  ck_complete :: "bool option"
  ck_error :: "exn option"
  ck_playlist_id :: "string option"
  ck_tracks_added :: "nat option"

text \<open>\<open>data.get(key, default)\<close>.\<close>

definition get :: "'b option \<Rightarrow> 'b \<Rightarrow> 'b" where
  "get v dflt = (case v of None \<Rightarrow> dflt | Some x \<Rightarrow> x)"

text \<open>
  The file system maps a path to the contents of the file there, \<open>None\<close> when no file
  exists. The contents of a file are the JSON documents dumped into it since it was last
  opened for writing: \<open>open(path, 'w')\<close> creates the file or truncates it to nothing and
  \<open>json.dump\<close> appends one document. \<open>json.load\<close> succeeds on a file holding exactly one
  document and raises otherwise (an empty file is not JSON).
\<close>

type_synonym 'a fs = "string \<rightharpoonup> 'a checkpoint list"

definition open_w :: "string \<Rightarrow> 'a fs \<Rightarrow> 'a fs" where
  "open_w filepath files = files(filepath \<mapsto> [])"

definition json_dump :: "'a checkpoint \<Rightarrow> string \<Rightarrow> 'a fs \<Rightarrow> 'a fs" where
  "json_dump data filepath files = files(filepath \<mapsto> get (files filepath) [] @ [data])"

definition json_load :: "string \<Rightarrow> 'a fs \<Rightarrow> exn + 'a checkpoint" where
  "json_load filepath files =
     (case files filepath of
        Some [data] \<Rightarrow> Inr data
      | _ \<Rightarrow> Inl JSONDecodeError)"

definition exists :: "string \<Rightarrow> 'a fs \<Rightarrow> bool" where
  "exists filepath files = (files filepath \<noteq> None)"

text \<open>
  \<open>save_checkpoint\<close> is \<open>with open(filepath, 'w') as f: json.dump(data, f)\<close>: two file
  operations, one after the other, on the checkpoint file itself. The writer (03\_merge.py)
  writes its checkpoints with the same two statements inline.
  \<open>save_checkpoint_crashed k\<close> is the file system a process leaves behind when it stops
  after the first \<open>k\<close> of these operations.
\<close>

definition save_checkpoint_ops :: "string \<Rightarrow> 'a checkpoint \<Rightarrow> ('a fs \<Rightarrow> 'a fs) list" where
  "save_checkpoint_ops filepath data = [open_w filepath, json_dump data filepath]"

definition run_ops :: "('s \<Rightarrow> 's) list \<Rightarrow> 's \<Rightarrow> 's" where
  "run_ops ops s = fold (\<lambda>op. op) ops s"

definition save_checkpoint :: "string \<Rightarrow> 'a checkpoint \<Rightarrow> 'a fs \<Rightarrow> 'a fs" where
  "save_checkpoint filepath data files = run_ops (save_checkpoint_ops filepath data) files"

definition save_checkpoint_crashed :: "nat \<Rightarrow> string \<Rightarrow> 'a checkpoint \<Rightarrow> 'a fs \<Rightarrow> 'a fs" where
  "save_checkpoint_crashed k filepath data files =
     run_ops (take k (save_checkpoint_ops filepath data)) files"

section \<open>The remote service and the world\<close>

text \<open>
  The Spotipy client \<open>sp\<close>, as the three methods the modelled code calls. Each takes, as
  its first argument, the number of remote calls made before it, so the service may answer
  the same request differently at different times (fail once and succeed on a rerun), and
  returns a value or raises. \<open>playlist_tracks t playlist_id offset limit\<close> returns a page
  \<open>{items, total}\<close>; \<open>playlist t playlist_id\<close> returns the playlist's name;
  \<open>playlist_add_items t playlist_id uris\<close> returns nothing of interest.
\<close>

record 'a paging =
  items :: "'a list"
  total :: nat

record 'a spotify =
  playlist_tracks :: "nat \<Rightarrow> string \<Rightarrow> nat \<Rightarrow> nat \<Rightarrow> exn + 'a paging"
  playlist :: "nat \<Rightarrow> string \<Rightarrow> exn + string"
  playlist_add_items :: "nat \<Rightarrow> string \<Rightarrow> string list \<Rightarrow> exn + unit"

datatype request =
    Playlist_tracks string nat nat
  | Playlist string
  | Playlist_add_items string "string list"

text \<open>The world a job runs in: the checkpoint files and the log of remote calls made.\<close>

record 'a world =
  files :: "'a fs"
  calls :: "request list"

text \<open>
  One remote call: the request is logged whether it succeeds or raises.
  \<open>sp.playlist_tracks(playlist_id, limit=1)\<close> leaves \<open>offset\<close> at Spotipy's default 0.
\<close>

definition call_playlist_tracks ::
  "'a spotify \<Rightarrow> string \<Rightarrow> nat \<Rightarrow> nat \<Rightarrow> 'a world \<Rightarrow> (exn + 'a paging) \<times> 'a world" where
  "call_playlist_tracks sp playlist_id offset limit w =
     (playlist_tracks sp (length (calls w)) playlist_id offset limit,
      w\<lparr>calls := calls w @ [Playlist_tracks playlist_id offset limit]\<rparr>)"


definition call_playlist_add_items ::
  "'a spotify \<Rightarrow> string \<Rightarrow> string list \<Rightarrow> 'a world \<Rightarrow> (exn + unit) \<times> 'a world" where
  "call_playlist_add_items sp playlist_id uris w =
     (playlist_add_items sp (length (calls w)) playlist_id uris,
      w\<lparr>calls := calls w @ [Playlist_add_items playlist_id uris]\<rparr>)"

definition save :: "string \<Rightarrow> 'a checkpoint \<Rightarrow> 'a world \<Rightarrow> 'a world" where
  "save filepath data w = w\<lparr>files := save_checkpoint filepath data (files w)\<rparr>"

text \<open>A dictionary with no key set; the code's literals set some of them.\<close>

definition empty_checkpoint :: "'a checkpoint" where
  "empty_checkpoint =
     \<lparr>ck_tracks = None, ck_next_offset = None, ck_complete = None, ck_error = None,
      ck_playlist_id = None, ck_tracks_added = None\<rparr>"

section \<open>The paginated fetcher: \<open>fetch_playlist_tracks\<close> (fetch.py)\<close>

definition fetch_checkpoint_file :: "string \<Rightarrow> string \<Rightarrow> string" where
  "fetch_checkpoint_file checkpoint_dir playlist_id =
     checkpoint_dir @ ''/playlist_'' @ playlist_id @ ''.json''"

text \<open>
  The \<open>if checkpoint_file.exists()\<close> block: either the function returns the cached tracks
  at once, or it goes on with \<open>all_tracks\<close> and \<open>start_offset\<close>; \<open>json.load\<close> may raise.
\<close>

datatype 'a start = Cached "'a list" | Start "'a list" nat

definition load_fetch_checkpoint :: "string \<Rightarrow> 'a fs \<Rightarrow> exn + 'a start" where
  "load_fetch_checkpoint checkpoint_file fs =
     (if exists checkpoint_file fs then
        (case json_load checkpoint_file fs of
           Inl e \<Rightarrow> Inl e
         | Inr checkpoint_data \<Rightarrow>
             if \<not> get (ck_complete checkpoint_data) False
             then Inr (Start (get (ck_tracks checkpoint_data) []) (get (ck_next_offset checkpoint_data) 0))
             else Inr (Cached (get (ck_tracks checkpoint_data) [])))
      else Inr (Start [] 0))"

text \<open>
  The \<open>while offset < total\<close> loop with its \<open>try\<close>/\<open>except\<close>. It returns the final
  \<open>all_tracks\<close> and \<open>offset\<close>, or the exception re-raised after the checkpoint is saved.
\<close>

function fetch_loop ::
  "'a spotify \<Rightarrow> string \<Rightarrow> string \<Rightarrow> nat \<Rightarrow> nat \<Rightarrow> 'a list \<Rightarrow> 'a world
   \<Rightarrow> (exn + 'a list \<times> nat) \<times> 'a world" where
  "fetch_loop sp playlist_id checkpoint_file tot offset all_tracks w =
     (if offset < tot then
        (case call_playlist_tracks sp playlist_id offset 100 w of
           (Inr response, w1) \<Rightarrow>
             let batch = items response;
                 all_tracks1 = all_tracks @ batch;
                 w2 = (if length all_tracks1 mod 500 < 100
                       then save checkpoint_file
                              (empty_checkpoint\<lparr>ck_tracks := Some all_tracks1,
                                 ck_next_offset := Some (offset + 100),
                                 ck_complete := Some False\<rparr>) w1
                       else w1)
             in fetch_loop sp playlist_id checkpoint_file tot (offset + 100) all_tracks1 w2
         | (Inl e, w1) \<Rightarrow>
             (Inl e,
              save checkpoint_file
                (empty_checkpoint\<lparr>ck_tracks := Some all_tracks,
                   ck_next_offset := Some offset,
                   ck_complete := Some False,
                   ck_error := Some e\<rparr>) w1))
      else (Inr (all_tracks, offset), w))"
  by pat_completeness auto
termination
  by (relation "measure (\<lambda>(sp, playlist_id, checkpoint_file, tot, offset, all_tracks, w). tot - offset)")
     auto

declare fetch_loop.simps [simp del]

definition fetch_playlist_tracks ::
  "'a spotify \<Rightarrow> string \<Rightarrow> string \<Rightarrow> 'a world \<Rightarrow> (exn + 'a list) \<times> 'a world" where
  "fetch_playlist_tracks sp playlist_id checkpoint_dir w =
     (let checkpoint_file = fetch_checkpoint_file checkpoint_dir playlist_id in
      case load_fetch_checkpoint checkpoint_file (files w) of
        Inl e \<Rightarrow> (Inl e, w)
      | Inr (Cached cached) \<Rightarrow> (Inr cached, w)
      | Inr (Start all_tracks start_offset) \<Rightarrow>
          (case call_playlist_tracks sp playlist_id 0 1 w of
             (Inl e, w1) \<Rightarrow> (Inl e, w1)
           | (Inr initial, w1) \<Rightarrow>
               (case fetch_loop sp playlist_id checkpoint_file (total initial) start_offset all_tracks w1 of
                  (Inl e, w2) \<Rightarrow> (Inl e, w2)
                | (Inr (all_tracks1, offset), w2) \<Rightarrow>
                    (Inr all_tracks1,
                     save checkpoint_file
                       (empty_checkpoint\<lparr>ck_tracks := Some all_tracks1,
                          ck_next_offset := Some offset,
                          ck_complete := Some True\<rparr>) w2))))"

section \<open>The batched writer: \<open>add_tracks_to_playlist\<close> (03\_merge.py)\<close>

definition write_checkpoint_file :: "string \<Rightarrow> string \<Rightarrow> string" where
  "write_checkpoint_file checkpoint_dir playlist_id =
     checkpoint_dir @ ''/write_'' @ playlist_id @ ''.json''"

text \<open>The \<open>if checkpoint_file.exists()\<close> block: the value of \<open>start_index\<close> after it.\<close>

definition load_write_checkpoint :: "string \<Rightarrow> 'a fs \<Rightarrow> exn + nat" where
  "load_write_checkpoint checkpoint_file fs =
     (if exists checkpoint_file fs then
        (case json_load checkpoint_file fs of
           Inl e \<Rightarrow> Inl e
         | Inr checkpoint_data \<Rightarrow>
             if \<not> get (ck_complete checkpoint_data) False
             then Inr (get (ck_tracks_added checkpoint_data) 0)
             else Inr 0)
      else Inr 0)"

text \<open>\<open>f"spotify:track:{tid}" if not tid.startswith("spotify:") else tid\<close>.\<close>

definition to_uri :: "string \<Rightarrow> string" where
  "to_uri tid = (if \<not> (take 8 tid = ''spotify:'') then ''spotify:track:'' @ tid else tid)"

text \<open>\<open>range(0, stop, step)\<close> and the slices \<open>remaining_uris[i:i+100]\<close> the loop takes.\<close>

definition range_step :: "nat \<Rightarrow> nat \<Rightarrow> nat list" where
  "range_step stop step = map (\<lambda>k. k * step) [0..<(stop + step - 1) div step]"

definition batches :: "'b list \<Rightarrow> 'b list list" where
  "batches remaining_uris =
     map (\<lambda>i. take 100 (drop i remaining_uris)) (range_step (length remaining_uris) 100)"

text \<open>
  The \<open>for i in range(0, len(remaining_uris), 100)\<close> loop over its batches. The
  \<open>time.sleep(0.1)\<close> between batches and the progress bar have no effect on the result
  and are left out.
\<close>

fun write_loop ::
  "'a spotify \<Rightarrow> string \<Rightarrow> string \<Rightarrow> string list list \<Rightarrow> nat \<Rightarrow> 'a world
   \<Rightarrow> (exn + nat) \<times> 'a world" where
  "write_loop sp playlist_id checkpoint_file [] tracks_added w = (Inr tracks_added, w)"
| "write_loop sp playlist_id checkpoint_file (batch # rest) tracks_added w =
     (case call_playlist_add_items sp playlist_id batch w of
        (Inr _, w1) \<Rightarrow>
          let tracks_added1 = tracks_added + length batch;
              w2 = save checkpoint_file
                     (empty_checkpoint\<lparr>ck_playlist_id := Some playlist_id,
                        ck_tracks_added := Some tracks_added1\<rparr>) w1
          in write_loop sp playlist_id checkpoint_file rest tracks_added1 w2
      | (Inl e, w1) \<Rightarrow>
          (Inl e,
           save checkpoint_file
             (empty_checkpoint\<lparr>ck_playlist_id := Some playlist_id,
                ck_tracks_added := Some tracks_added,
                ck_error := Some e\<rparr>) w1))"

definition add_tracks_to_playlist ::
  "'a spotify \<Rightarrow> string \<Rightarrow> string list \<Rightarrow> string \<Rightarrow> 'a world \<Rightarrow> (exn + nat) \<times> 'a world" where
  "add_tracks_to_playlist sp playlist_id track_ids checkpoint_dir w =
     (let checkpoint_file = write_checkpoint_file checkpoint_dir playlist_id in
      case load_write_checkpoint checkpoint_file (files w) of
        Inl e \<Rightarrow> (Inl e, w)
      | Inr start_index \<Rightarrow>
          let uris = map to_uri track_ids;
              remaining_uris = drop start_index uris
          in if remaining_uris = [] then (Inr (length track_ids), w)
             else
               (case write_loop sp playlist_id checkpoint_file (batches remaining_uris) start_index w of
                  (Inl e, w1) \<Rightarrow> (Inl e, w1)
                | (Inr tracks_added, w1) \<Rightarrow>
                    (Inr tracks_added,
                     save checkpoint_file
                       (empty_checkpoint\<lparr>ck_playlist_id := Some playlist_id,
                          ck_tracks_added := Some tracks_added,
                          ck_complete := Some True\<rparr>) w1)))"

section \<open>The canonical store: \<open>SpotifyStorage\<close> (storage.py)\<close>

text \<open>
  A row of the table \<open>tracks\<close>. A nullable column is an option, \<open>None\<close> for NULL;
  \<open>id\<close> (here \<open>id'\<close>) is never NULL in a stored row, since \<open>store_tracks\<close> skips items
  without one. \<open>track\<close> has the twelve columns \<open>get_deduplicated_tracks\<close> selects;
  \<open>track_row\<close> adds \<open>playlist_source\<close>. The column \<open>fetched_at\<close>, filled by the
  database and read by no query, is left out. A timestamp is a number of seconds.
\<close>

type_synonym timestamp = int

record track =
  id' :: string
  name :: "string option"
  artist :: "string option"
  artist_id :: "string option"
  album :: "string option"
  album_id :: "string option"
  release_date :: "string option"
  duration_ms :: "int option"
  popularity :: "int option"
  explicit :: "bool option"
  isrc :: "string option"
  added_at :: "timestamp option"

record track_row = track +
  playlist_source :: string





















section \<open>The ingestion run: \<open>main\<close> (01\_fetch.py)\<close>



section \<open>The deduplication query: \<open>get_deduplicated_tracks\<close> (analyze.py)\<close>

text \<open>
  \<open>GROUP BY id, name, artist, artist_id, album, album_id, release_date, duration_ms,
  popularity, explicit, isrc\<close>: two rows are in one group when they agree on these eleven
  columns (NULL groups with NULL).
\<close>

type_synonym group_key =
  "string \<times> string option \<times> string option \<times> string option \<times> string option \<times> string option
   \<times> string option \<times> int option \<times> int option \<times> bool option \<times> string option"

definition group_key :: "'z track_scheme \<Rightarrow> group_key" where
  "group_key r =
     (id' r, name r, artist r, artist_id r, album r, album_id r, release_date r,
      duration_ms r, popularity r, explicit r, isrc r)"

text \<open>\<open>MAX(added_at)\<close>: NULLs are ignored; the maximum of no value is NULL.\<close>

fun sql_max :: "timestamp option list \<Rightarrow> timestamp option" where
  "sql_max [] = None"
| "sql_max (None # xs) = sql_max xs"
| "sql_max (Some t # xs) = (case sql_max xs of None \<Rightarrow> Some t | Some u \<Rightarrow> Some (max t u))"

text \<open>The row selected for one group: the grouping columns and \<open>MAX(added_at)\<close>.\<close>

fun group_row :: "track_row list \<Rightarrow> group_key \<Rightarrow> track" where
  "group_row db (i, n, a, ai, al, ali, rd, d, p, e, c) =
     \<lparr>id' = i, name = n, artist = a, artist_id = ai, album = al, album_id = ali,
      release_date = rd, duration_ms = d, popularity = p, explicit = e, isrc = c,
      added_at = sql_max (map added_at (filter (\<lambda>r. group_key r = (i, n, a, ai, al, ali, rd, d, p, e, c)) db))\<rparr>"

definition group_by :: "track_row list \<Rightarrow> track list" where
  "group_by db = map (group_row db) (remdups (map group_key db))"

text \<open>
  \<open>ORDER BY name, artist\<close>: ascending, NULLS LAST (DuckDB's default), strings compared
  character by character. The sort is stable; SQL leaves the order of ties open, and so
  does this model, in which the order of the rows of \<open>db\<close> is arbitrary.
\<close>

definition nulls_last :: "string option \<Rightarrow> bool \<times> string" where
  "nulls_last v = (case v of None \<Rightarrow> (True, []) | Some s \<Rightarrow> (False, s))"

definition order_key :: "track \<Rightarrow> (bool \<times> string) \<times> (bool \<times> string)" where
  "order_key r = (nulls_last (name r), nulls_last (artist r))"

text \<open>\<open>SELECT DISTINCT ON (id)\<close>: of the rows with one id, the first in the order is kept.\<close>

fun distinct_on_id :: "string list \<Rightarrow> track list \<Rightarrow> track list" where
  "distinct_on_id seen [] = []"
| "distinct_on_id seen (r # rs) =
     (if id' r \<in> set seen then distinct_on_id seen rs
      else r # distinct_on_id (id' r # seen) rs)"

definition get_deduplicated_tracks :: "track_row list \<Rightarrow> track list" where
  "get_deduplicated_tracks db = distinct_on_id [] (sort_key order_key (group_by db))"

text \<open>The identity of a record in the sense of the specification.\<close>

definition identity :: "'z track_scheme \<Rightarrow> string \<times> string option \<times> string option" where
  "identity r = (id' r, name r, artist r)"

section \<open>A remote service for the examples\<close>

text \<open>
  A service that never fails: it serves the playlist \<open>coll playlist_id\<close>, page by page, names
  every playlist \<open>playlist_id\<close> and accepts every batch of items.
\<close>

definition serve :: "(string \<Rightarrow> 'a list) \<Rightarrow> 'a spotify" where
  "serve coll =
     \<lparr>playlist_tracks = (\<lambda>t playlist_id offset limit.
        Inr \<lparr>items = take limit (drop offset (coll playlist_id)), total = length (coll playlist_id)\<rparr>),
      playlist = (\<lambda>t playlist_id. Inr playlist_id),
      playlist_add_items = (\<lambda>t playlist_id uris. Inr ())\<rparr>"

section \<open>Properties of the retry wrapper\<close>

lemma sleep_backoff: "sleep (2 ^ attempt + 1) sleeps = Inr (sleeps @ [2 ^ attempt + 1])"
proof -
  have "(0::int) \<le> 2 ^ attempt" by simp
  then have "\<not> (2 ^ attempt + 1 < (0::int))" by linarith
  then show ?thesis by (simp add: sleep_def)
qed

lemma retry_loop_calls:
  "snd (snd (retry_loop func m as sl c)) \<le> c + length as"
proof (induction as arbitrary: sl c)
  case Nil
  show ?case by simp
next
  case (Cons a as)
  have step: "snd (snd (retry_loop func m as sl' (Suc c))) \<le> Suc (c + length as)" for sl'
    using Cons.IH [of sl' "Suc c"] by simp
  show ?case
    by (simp add: step split: sum.splits)
qed

lemma retry_loop_raises:
  "\<forall>a\<in>set as. isl (func a) \<Longrightarrow> isl (fst (retry_loop func m as sl c))"
proof (induction as arbitrary: sl c)
  case Nil
  show ?case by simp
next
  case (Cons a as)
  from Cons.prems obtain e where e: "func a = Inl e"
    by (cases "func a") auto
  from Cons.prems have rest: "\<forall>a\<in>set as. isl (func a)" by simp
  show ?case
    using Cons.IH [OF rest] by (simp add: e split: sum.splits)
qed

text \<open>
  C8, as the code has it. When the wrapped call raises an exception that is not a
  \<open>SpotifyException\<close>, the wrapper sleeps \<open>2 ^ attempt + 1\<close> seconds and goes on to the
  next attempt. When it raises a \<open>SpotifyException\<close> whose status is neither 429 nor at
  least 500, the wrapper re-raises it at once: no sleep, no further attempt.
\<close>

theorem retry_other_exception:
  "(func attempt = Inl e \<and> \<not> is_SpotifyException e \<longrightarrow>
      retry_loop func max_retries (attempt # rest) sleeps n
        = retry_loop func max_retries rest (sleeps @ [2 ^ attempt + 1]) (Suc n)) \<and>
   (func attempt = Inl (SpotifyException status hdr) \<and> status \<noteq> 429 \<and> status < 500 \<longrightarrow>
      retry_loop func max_retries (attempt # rest) sleeps n
        = (Inl (SpotifyException status hdr), sleeps, Suc n))"
  by (cases e) (auto simp: sleep_backoff)

theorem retry_other_exception_witness:
  "robust_api_call (\<lambda>attempt. if attempt = 0 then Inl (Exception ''boom'') else Inr (7::nat)) 5
     = (Inr 7, [2], 2) \<and>
   retry_loop (\<lambda>attempt. Inl (SpotifyException 404 Missing) :: exn + nat) 5 [0, 1, 2, 3, 4] [] 0
     = (Inl (SpotifyException 404 Missing), [], 1)"
  using retry_other_exception [of "\<lambda>attempt. if attempt = 0 then Inl (Exception ''boom'') else Inr (7::nat)"
      0 "Exception ''boom''" 5 "[1, 2, 3, 4]" "[]" 0 404 Missing]
    retry_other_exception [of "\<lambda>attempt. Inl (SpotifyException 404 Missing) :: exn + nat"
      0 "Exception ''boom''" 5 "[1, 2, 3, 4]" "[]" 0 404 Missing]
  by (simp add: robust_api_call_def upt_rec sleep_def)

text \<open>
  C8 as stated fails: a call that always fails with the client error 403, which is neither
  a rate-limit signal nor a server error, is invoked once; the wrapper does not sleep and
  does not retry, it raises the 403.
\<close>

theorem robust_api_call_client_error_counterexample:
  "robust_api_call (\<lambda>attempt. Inl (SpotifyException 403 Missing) :: exn + nat) 5
     = (Inl (SpotifyException 403 Missing), [], 1)"
  by (simp add: robust_api_call_def upt_rec)

text \<open>
  C9. Whatever the wrapped call does at each attempt, it is invoked at most
  \<open>max_retries\<close> times, and when every attempt fails the wrapper ends with an exception.
\<close>

theorem robust_api_call_bounded:
  "snd (snd (robust_api_call func max_retries)) \<le> max_retries \<and>
   ((\<forall>attempt<max_retries. isl (func attempt)) \<longrightarrow> isl (fst (robust_api_call func max_retries)))"
  using retry_loop_calls [of func max_retries "[0..<max_retries]" "[]" 0]
    retry_loop_raises [of "[0..<max_retries]" func max_retries "[]" 0]
  by (auto simp: robust_api_call_def)

theorem robust_api_call_bounded_witness:
  "snd (snd (robust_api_call (\<lambda>attempt. Inl (Exception ''boom'') :: exn + nat) 5)) \<le> 5 \<and>
   isl (fst (robust_api_call (\<lambda>attempt. Inl (Exception ''boom'') :: exn + nat) 5)) \<and>
   robust_api_call (\<lambda>attempt. Inl (Exception ''boom'') :: exn + nat) 5
     = (Inl (MaxRetriesExceeded 5), [2, 3, 5, 9, 17], 5)"
  using robust_api_call_bounded [of "\<lambda>attempt. Inl (Exception ''boom'') :: exn + nat" 5]
  by (simp add: robust_api_call_def sleep_def upt_rec)

section \<open>Properties of the checkpoint store\<close>

lemma json_load_save [simp]: "json_load filepath (save_checkpoint filepath data fs) = Inr data"
  by (simp add: json_load_def save_checkpoint_def save_checkpoint_ops_def run_ops_def open_w_def
      json_dump_def get_def)

lemma calls_save [simp]: "calls (save filepath data w) = calls w"
  by (simp add: save_def)

text \<open>
  C10, as the code has it. \<open>save_checkpoint\<close> overwrites the checkpoint file in place:
  whatever the file held, a load after a save that ran to its end returns the whole new
  checkpoint. There is no temporary file and no rename: a process that stops after the
  file is opened for writing and before the dump leaves an empty file, which a load
  rejects with a decoding error.
\<close>

theorem save_checkpoint_overwrites:
  "json_load filepath (save_checkpoint filepath data fs) = Inr data \<and>
   json_load filepath (save_checkpoint_crashed 1 filepath data fs) = Inl JSONDecodeError"
  by (simp add: json_load_def save_checkpoint_def save_checkpoint_crashed_def save_checkpoint_ops_def
      run_ops_def open_w_def json_dump_def get_def)

text \<open>
  C10 as stated fails: with an old checkpoint (cursor 100) in the file, a save of a new
  checkpoint (cursor 200) that stops after its first file operation leaves a file whose
  load is neither the load of the old state nor the load of the new state.
\<close>

theorem save_checkpoint_torn_counterexample:
  "json_load ''f''
     (save_checkpoint_crashed 1 ''f'' (empty_checkpoint\<lparr>ck_tracks := Some [1, 2::nat], ck_next_offset := Some 200\<rparr>)
        [''f'' \<mapsto> [empty_checkpoint\<lparr>ck_tracks := Some [1::nat], ck_next_offset := Some 100\<rparr>]])
   \<noteq> json_load ''f'' [''f'' \<mapsto> [empty_checkpoint\<lparr>ck_tracks := Some [1::nat], ck_next_offset := Some 100\<rparr>]]
   \<and>
   json_load ''f''
     (save_checkpoint_crashed 1 ''f'' (empty_checkpoint\<lparr>ck_tracks := Some [1, 2::nat], ck_next_offset := Some 200\<rparr>)
        [''f'' \<mapsto> [empty_checkpoint\<lparr>ck_tracks := Some [1::nat], ck_next_offset := Some 100\<rparr>]])
   \<noteq> json_load ''f''
     (save_checkpoint ''f'' (empty_checkpoint\<lparr>ck_tracks := Some [1, 2::nat], ck_next_offset := Some 200\<rparr>)
        [''f'' \<mapsto> [empty_checkpoint\<lparr>ck_tracks := Some [1::nat], ck_next_offset := Some 100\<rparr>]])"
  by (simp add: json_load_def save_checkpoint_crashed_def save_checkpoint_def save_checkpoint_ops_def
      run_ops_def open_w_def json_dump_def get_def)

section \<open>Properties of the paginated fetcher\<close>

text \<open>
  C5. When the checkpoint file of the job holds a checkpoint marked complete,
  \<open>fetch_playlist_tracks\<close> returns the checkpoint's \<open>tracks\<close> (the empty list when the key
  is absent) and leaves the world as it was: no remote call is logged and no file is
  written.
\<close>

theorem fetch_complete_replay:
  assumes "files w (fetch_checkpoint_file checkpoint_dir playlist_id) = Some [checkpoint_data]"
    and "ck_complete checkpoint_data = Some True"
  shows "fetch_playlist_tracks sp playlist_id checkpoint_dir w
           = (Inr (get (ck_tracks checkpoint_data) []), w)"
  using assms
  by (simp add: fetch_playlist_tracks_def load_fetch_checkpoint_def exists_def json_load_def get_def)

theorem fetch_complete_replay_witness:
  "fetch_playlist_tracks (serve (\<lambda>playlist_id. [])) ''p'' ''ckpt''
     \<lparr>files = [fetch_checkpoint_file ''ckpt'' ''p'' \<mapsto>
        [empty_checkpoint\<lparr>ck_tracks := Some [1, 2, 3::nat], ck_next_offset := Some 100,
           ck_complete := Some True\<rparr>]],
      calls = []\<rparr>
   = (Inr [1, 2, 3],
      \<lparr>files = [fetch_checkpoint_file ''ckpt'' ''p'' \<mapsto>
        [empty_checkpoint\<lparr>ck_tracks := Some [1, 2, 3::nat], ck_next_offset := Some 100,
           ck_complete := Some True\<rparr>]],
      calls = []\<rparr>)"
  using fetch_complete_replay [of
     "\<lparr>files = [fetch_checkpoint_file ''ckpt'' ''p'' \<mapsto>
        [empty_checkpoint\<lparr>ck_tracks := Some [1, 2, 3::nat], ck_next_offset := Some 100,
           ck_complete := Some True\<rparr>]],
      calls = []\<rparr>" "''ckpt''" "''p''"
      "empty_checkpoint\<lparr>ck_tracks := Some [1, 2, 3::nat], ck_next_offset := Some 100,
           ck_complete := Some True\<rparr>" "serve (\<lambda>playlist_id. [])"]
  by (simp add: empty_checkpoint_def get_def)

section \<open>Properties of the batched writer\<close>

lemma batches_Nil [simp]: "batches [] = []"
  by (simp add: batches_def range_step_def)

lemma batch_count_Suc:
  assumes "0 < (n::nat)"
  shows "(n + 99) div 100 = Suc ((n - 100 + 99) div 100)"
proof (cases "n \<le> 100")
  case True
  have "(n + 99) div 100 = 1"
    using assms True by (intro div_nat_eqI) simp_all
  moreover have "n - 100 = 0" using True by simp
  ultimately show ?thesis by simp
next
  case False
  define m where "m = n - 100"
  have n: "n = m + 100" using False by (simp add: m_def)
  have "(m + 100 + 99) div 100 = Suc ((m + 99) div 100)"
    by (simp add: add.commute add.left_commute)
  then show ?thesis by (simp add: n)
qed

lemma batches_eq:
  "batches xs = map (\<lambda>k. take 100 (drop (k * 100) xs)) [0..<(length xs + 99) div 100]"
  by (simp add: batches_def range_step_def comp_def add.commute)

lemma batches_unfold:
  assumes "xs \<noteq> []"
  shows "batches xs = take 100 xs # batches (drop 100 xs)"
proof -
  define m where "m = (length xs - 100 + 99) div 100"
  define g where "g k = take 100 (drop (k * 100) xs)" for k
  have "0 < length xs" using assms by simp
  then have cnt: "(length xs + 99) div 100 = Suc m"
    unfolding m_def by (rule batch_count_Suc)
  have "batches xs = map g [0..<Suc m]"
    unfolding batches_eq [of xs] cnt g_def ..
  also have "\<dots> = g 0 # map (\<lambda>k. g (Suc k)) [0..<m]"
    by (rule map_upt_Suc)
  also have "g 0 = take 100 xs"
    by (simp add: g_def)
  also have "map (\<lambda>k. g (Suc k)) [0..<m] = batches (drop 100 xs)"
    unfolding batches_eq [of "drop 100 xs"] g_def m_def
    by (simp add: add.commute)
  finally show ?thesis .
qed

lemma concat_batches: "concat (batches xs) = xs"
proof (induction xs rule: length_induct)
  case (1 xs)
  show ?case
  proof (cases "xs = []")
    case True
    then show ?thesis by simp
  next
    case False
    then have "length (drop 100 xs) < length xs" by simp
    with 1 have "concat (batches (drop 100 xs)) = drop 100 xs" by blast
    with False show ?thesis by (simp add: batches_unfold)
  qed
qed

lemma length_batches: "length (batches xs) = (length xs + 99) div 100"
  by (simp add: batches_eq)

lemma batches_bounded: "b \<in> set (batches xs) \<Longrightarrow> length b \<le> 100"
  by (auto simp: batches_eq)

lemma write_loop_calls_prefix:
  "\<exists>j\<le>length bs. calls (snd (write_loop sp playlist_id f bs ta w))
       = calls w @ map (Playlist_add_items playlist_id) (take j bs)"
proof (induction bs arbitrary: ta w)
  case Nil
  show ?case by simp
next
  case (Cons b bs)
  let ?w1 = "w\<lparr>calls := calls w @ [Playlist_add_items playlist_id b]\<rparr>"
  show ?case
  proof (cases "playlist_add_items sp (length (calls w)) playlist_id b")
    case (Inl e)
    then have "calls (snd (write_loop sp playlist_id f (b # bs) ta w))
        = calls w @ map (Playlist_add_items playlist_id) (take 1 (b # bs))"
      by (simp add: call_playlist_add_items_def)
    then show ?thesis by (intro exI [of _ 1]) simp
  next
    case (Inr u)
    let ?w2 = "save f (empty_checkpoint\<lparr>ck_playlist_id := Some playlist_id,
                 ck_tracks_added := Some (ta + length b)\<rparr>) ?w1"
    from Cons.IH [of "ta + length b" ?w2] obtain j where j: "j \<le> length bs"
      and c: "calls (snd (write_loop sp playlist_id f bs (ta + length b) ?w2))
            = calls ?w2 @ map (Playlist_add_items playlist_id) (take j bs)"
      by blast
    have "calls (snd (write_loop sp playlist_id f (b # bs) ta w))
        = calls w @ map (Playlist_add_items playlist_id) (take (Suc j) (b # bs))"
      using Inr c by (simp add: call_playlist_add_items_def Let_def)
    with j show ?thesis by (intro exI [of _ "Suc j"]) simp
  qed
qed

lemma write_loop_all_ok:
  assumes "\<forall>t b. playlist_add_items sp t playlist_id b = Inr ()"
  shows "calls (snd (write_loop sp playlist_id f bs ta w))
           = calls w @ map (Playlist_add_items playlist_id) bs \<and>
         fst (write_loop sp playlist_id f bs ta w) = Inr (ta + length (concat bs))"
  using assms
  by (induction bs arbitrary: ta w) (simp_all add: call_playlist_add_items_def Let_def)

lemma load_write_checkpoint_resume:
  assumes "fs (write_checkpoint_file checkpoint_dir playlist_id) = Some [checkpoint_data]"
    and "ck_complete checkpoint_data \<noteq> Some True"
  shows "load_write_checkpoint (write_checkpoint_file checkpoint_dir playlist_id) fs
           = Inr (get (ck_tracks_added checkpoint_data) 0)"
  using assms
  by (cases "ck_complete checkpoint_data")
     (auto simp: load_write_checkpoint_def exists_def json_load_def get_def)

text \<open>
  C2. A write job resumed from a checkpoint that is not marked complete and records
  \<open>K * 100\<close> tracks added. The remote write calls it makes are, in order, an initial
  segment of the batches of the URIs after the first \<open>K * 100\<close>; when no call fails they
  are all of these batches and the job returns the number of track ids. The batches
  concatenate to exactly the URIs after the first \<open>K * 100\<close>, none has more than 100
  URIs, and there are \<open>M - K\<close> of them, \<open>M\<close> being the number of batches of the whole job.
\<close>

theorem add_tracks_resume:
  assumes "files w (write_checkpoint_file checkpoint_dir playlist_id) = Some [checkpoint_data]"
    and "ck_complete checkpoint_data \<noteq> Some True"
    and "ck_tracks_added checkpoint_data = Some (K * 100)"
  shows "(\<exists>j\<le>length (batches (drop (K * 100) (map to_uri track_ids))).
            calls (snd (add_tracks_to_playlist sp playlist_id track_ids checkpoint_dir w))
              = calls w @ map (Playlist_add_items playlist_id)
                  (take j (batches (drop (K * 100) (map to_uri track_ids))))) \<and>
         ((\<forall>t b. playlist_add_items sp t playlist_id b = Inr ()) \<longrightarrow>
            calls (snd (add_tracks_to_playlist sp playlist_id track_ids checkpoint_dir w))
              = calls w @ map (Playlist_add_items playlist_id)
                  (batches (drop (K * 100) (map to_uri track_ids))) \<and>
            fst (add_tracks_to_playlist sp playlist_id track_ids checkpoint_dir w)
              = Inr (length track_ids)) \<and>
         concat (batches (drop (K * 100) (map to_uri track_ids)))
           = drop (K * 100) (map to_uri track_ids) \<and>
         (\<forall>b\<in>set (batches (drop (K * 100) (map to_uri track_ids))). length b \<le> 100) \<and>
         length (batches (drop (K * 100) (map to_uri track_ids)))
           = (length track_ids + 99) div 100 - K"
proof -
  let ?f = "write_checkpoint_file checkpoint_dir playlist_id"
  let ?rem = "drop (K * 100) (map to_uri track_ids)"
  let ?R = "add_tracks_to_playlist sp playlist_id track_ids checkpoint_dir w"
  have start: "load_write_checkpoint ?f (files w) = Inr (K * 100)"
    using load_write_checkpoint_resume [of "files w" checkpoint_dir playlist_id checkpoint_data] assms
    by (simp add: get_def)
  have calls_R: "calls (snd ?R) = calls (snd (write_loop sp playlist_id ?f (batches ?rem) (K * 100) w))"
    by (cases "?rem = []")
       (auto simp: add_tracks_to_playlist_def start Let_def split: prod.splits sum.splits)
  have prefix: "\<exists>j\<le>length (batches ?rem).
      calls (snd ?R) = calls w @ map (Playlist_add_items playlist_id) (take j (batches ?rem))"
    unfolding calls_R by (rule write_loop_calls_prefix)
  have ok: "calls (snd ?R) = calls w @ map (Playlist_add_items playlist_id) (batches ?rem) \<and>
      fst ?R = Inr (length track_ids)"
    if all: "\<forall>t b. playlist_add_items sp t playlist_id b = Inr ()"
  proof -
    note wl = write_loop_all_ok [OF all, of ?f "batches ?rem" "K * 100" w]
    have "fst ?R = Inr (length track_ids)"
    proof (cases "?rem = []")
      case True
      then show ?thesis by (simp add: add_tracks_to_playlist_def start Let_def)
    next
      case False
      then have "K * 100 < length track_ids" by simp
      then have "K * 100 + length ?rem = length track_ids" by simp
      with False wl show ?thesis
        by (auto simp: add_tracks_to_playlist_def start Let_def concat_batches
            split: prod.splits sum.splits)
    qed
    with wl show ?thesis by (simp add: calls_R)
  qed
  have len: "length (batches ?rem) = (length track_ids + 99) div 100 - K"
    by (simp add: length_batches)
  show ?thesis
    using prefix ok len by (simp add: concat_batches batches_bounded)
qed

theorem add_tracks_resume_witness:
  "calls (snd (add_tracks_to_playlist (serve (\<lambda>p. [] :: nat list)) ''p''
      (replicate 100 ''a'' @ [''b'']) ''ckpt''
      \<lparr>files = [write_checkpoint_file ''ckpt'' ''p'' \<mapsto>
         [empty_checkpoint\<lparr>ck_playlist_id := Some ''p'', ck_tracks_added := Some 100\<rparr>]],
       calls = []\<rparr>))
     = [Playlist_add_items ''p'' [''spotify:track:b'']] \<and>
   fst (add_tracks_to_playlist (serve (\<lambda>p. [] :: nat list)) ''p''
      (replicate 100 ''a'' @ [''b'']) ''ckpt''
      \<lparr>files = [write_checkpoint_file ''ckpt'' ''p'' \<mapsto>
         [empty_checkpoint\<lparr>ck_playlist_id := Some ''p'', ck_tracks_added := Some 100\<rparr>]],
       calls = []\<rparr>)
     = Inr 101"
  using add_tracks_resume [of
      "\<lparr>files = [write_checkpoint_file ''ckpt'' ''p'' \<mapsto>
         [empty_checkpoint\<lparr>ck_playlist_id := Some ''p'', ck_tracks_added := Some 100\<rparr>]],
       calls = []\<rparr>"
      "''ckpt''" "''p''"
      "empty_checkpoint\<lparr>ck_playlist_id := Some ''p'', ck_tracks_added := Some 100\<rparr>"
      1 "replicate 100 ''a'' @ [''b'']" "serve (\<lambda>p. [] :: nat list)"]
  by (simp add: empty_checkpoint_def serve_def to_uri_def batches_unfold)

text \<open>
  C3 does not hold of the code. With a checkpoint marked complete (2 tracks added) and
  the same two track ids, \<open>start_index\<close> stays 0 and the whole list is submitted again
  in one remote write call.
\<close>

theorem add_tracks_complete_checkpoint_resubmits:
  "calls (snd (add_tracks_to_playlist (serve (\<lambda>p. [] :: nat list)) ''p'' [''a'', ''spotify:track:b''] ''ckpt''
     \<lparr>files = [write_checkpoint_file ''ckpt'' ''p'' \<mapsto>
        [empty_checkpoint\<lparr>ck_playlist_id := Some ''p'', ck_tracks_added := Some 2,
           ck_complete := Some True\<rparr>]],
      calls = []\<rparr>))
   = [Playlist_add_items ''p'' [''spotify:track:a'', ''spotify:track:b'']]"
  by (simp add: add_tracks_to_playlist_def load_write_checkpoint_def exists_def json_load_def get_def
      empty_checkpoint_def to_uri_def batches_def range_step_def call_playlist_add_items_def
      serve_def save_def upt_rec Let_def)

section \<open>Resuming a fetch\<close>

text \<open>One turn of the \<open>while\<close> loop, for each way it can go.\<close>

lemma fetch_loop_done:
  "\<not> offset < tot \<Longrightarrow> fetch_loop sp playlist_id f tot offset acc w = (Inr (acc, offset), w)"
  by (subst fetch_loop.simps) simp

lemma fetch_loop_ok:
  assumes "offset < tot"
    and "playlist_tracks sp (length (calls w)) playlist_id offset 100 = Inr response"
  shows "fetch_loop sp playlist_id f tot offset acc w
      = fetch_loop sp playlist_id f tot (offset + 100) (acc @ items response)
          (if length (acc @ items response) mod 500 < 100
           then save f (empty_checkpoint\<lparr>ck_tracks := Some (acc @ items response),
                   ck_next_offset := Some (offset + 100), ck_complete := Some False\<rparr>)
                  (w\<lparr>calls := calls w @ [Playlist_tracks playlist_id offset 100]\<rparr>)
           else w\<lparr>calls := calls w @ [Playlist_tracks playlist_id offset 100]\<rparr>)"
  using assms
  by (subst fetch_loop.simps) (simp add: call_playlist_tracks_def Let_def)

lemma fetch_loop_raise:
  assumes "offset < tot"
    and "playlist_tracks sp (length (calls w)) playlist_id offset 100 = Inl e"
  shows "fetch_loop sp playlist_id f tot offset acc w
      = (Inl e, save f (empty_checkpoint\<lparr>ck_tracks := Some acc,
                   ck_next_offset := Some offset, ck_complete := Some False,
                   ck_error := Some e\<rparr>)
                  (w\<lparr>calls := calls w @ [Playlist_tracks playlist_id offset 100]\<rparr>))"
  using assms
  by (subst fetch_loop.simps) (simp add: call_playlist_tracks_def)

lemma page_count_Suc:
  assumes "offset < (tot::nat)"
  shows "(tot - offset + 99) div 100 = Suc ((tot - (offset + 100) + 99) div 100)"
proof -
  have "0 < tot - offset" using assms by simp
  then have "(tot - offset + 99) div 100 = Suc ((tot - offset - 100 + 99) div 100)"
    by (rule batch_count_Suc)
  then show ?thesis by simp
qed

lemma fetch_loop_honest:
  assumes honest: "\<forall>t offset limit. playlist_tracks sp t playlist_id offset limit
      = Inr \<lparr>items = take limit (drop offset coll), total = length coll\<rparr>"
  shows "(\<exists>offset'. fst (fetch_loop sp playlist_id f (length coll) offset acc w)
              = Inr (acc @ drop offset coll, offset')) \<and>
         calls (snd (fetch_loop sp playlist_id f (length coll) offset acc w))
           = calls w @ map (\<lambda>k. Playlist_tracks playlist_id (offset + k * 100) 100)
               [0..<(length coll - offset + 99) div 100]"
proof (induction "length coll - offset" arbitrary: offset acc w rule: less_induct)
  case less
  show ?case
  proof (cases "offset < length coll")
    case False
    then show ?thesis by (simp add: fetch_loop_done)
  next
    case True
    let ?resp = "\<lparr>items = take 100 (drop offset coll), total = length coll\<rparr>"
    let ?acc = "acc @ take 100 (drop offset coll)"
    let ?w1 = "w\<lparr>calls := calls w @ [Playlist_tracks playlist_id offset 100]\<rparr>"
    let ?w2 = "if length ?acc mod 500 < 100
           then save f (empty_checkpoint\<lparr>ck_tracks := Some ?acc,
                   ck_next_offset := Some (offset + 100), ck_complete := Some False\<rparr>) ?w1
           else ?w1"
    have step: "fetch_loop sp playlist_id f (length coll) offset acc w
        = fetch_loop sp playlist_id f (length coll) (offset + 100) ?acc ?w2"
      using fetch_loop_ok [OF True, of sp w playlist_id ?resp f acc] honest by simp
    have calls_w2: "calls ?w2 = calls w @ [Playlist_tracks playlist_id offset 100]"
      by simp
    have "length coll - (offset + 100) < length coll - offset" using True by simp
    from less [OF this, of ?acc ?w2]
    obtain offset' where
      res: "fst (fetch_loop sp playlist_id f (length coll) (offset + 100) ?acc ?w2)
              = Inr (?acc @ drop (offset + 100) coll, offset')"
      and cl: "calls (snd (fetch_loop sp playlist_id f (length coll) (offset + 100) ?acc ?w2))
           = calls ?w2 @ map (\<lambda>k. Playlist_tracks playlist_id (offset + 100 + k * 100) 100)
               [0..<(length coll - (offset + 100) + 99) div 100]"
      by blast
    have split: "take 100 (drop offset coll) @ drop (offset + 100) coll = drop offset coll"
      by (metis add.commute append_take_drop_id drop_drop)
    have r: "fst (fetch_loop sp playlist_id f (length coll) offset acc w)
              = Inr (acc @ drop offset coll, offset')"
      unfolding step res using split by simp
    have "map (\<lambda>k. Playlist_tracks playlist_id (offset + k * 100) 100)
               [0..<(length coll - offset + 99) div 100]
        = Playlist_tracks playlist_id offset 100 #
          map (\<lambda>k. Playlist_tracks playlist_id (offset + 100 + k * 100) 100)
               [0..<(length coll - (offset + 100) + 99) div 100]"
      unfolding page_count_Suc [OF True] map_upt_Suc by (simp add: add.assoc)
    then have c: "calls (snd (fetch_loop sp playlist_id f (length coll) offset acc w))
           = calls w @ map (\<lambda>k. Playlist_tracks playlist_id (offset + k * 100) 100)
               [0..<(length coll - offset + 99) div 100]"
      unfolding step cl calls_w2 by simp
    from r c show ?thesis by blast
  qed
qed

lemma fetch_loop_calls_extend:
  "\<exists>rest. calls (snd (fetch_loop sp playlist_id f tot offset acc w)) = calls w @ rest"
proof (induction "tot - offset" arbitrary: offset acc w rule: less_induct)
  case less
  show ?case
  proof (cases "offset < tot")
    case False
    then show ?thesis by (simp add: fetch_loop_done)
  next
    case True
    show ?thesis
    proof (cases "playlist_tracks sp (length (calls w)) playlist_id offset 100")
      case (Inl e)
      show ?thesis by (simp add: fetch_loop_raise [OF True Inl])
    next
      case (Inr response)
      let ?w1 = "w\<lparr>calls := calls w @ [Playlist_tracks playlist_id offset 100]\<rparr>"
      let ?w2 = "if length (acc @ items response) mod 500 < 100
           then save f (empty_checkpoint\<lparr>ck_tracks := Some (acc @ items response),
                   ck_next_offset := Some (offset + 100), ck_complete := Some False\<rparr>) ?w1
           else ?w1"
      have calls_w2: "calls ?w2 = calls w @ [Playlist_tracks playlist_id offset 100]"
        by simp
      have "tot - (offset + 100) < tot - offset" using True by simp
      from less [OF this, of "acc @ items response" ?w2] obtain rest where
        "calls (snd (fetch_loop sp playlist_id f tot (offset + 100) (acc @ items response) ?w2))
           = calls ?w2 @ rest"
        by blast
      then have "calls (snd (fetch_loop sp playlist_id f tot offset acc w))
           = calls w @ Playlist_tracks playlist_id offset 100 # rest"
        unfolding fetch_loop_ok [OF True Inr] calls_w2 by simp
      then show ?thesis by blast
    qed
  qed
qed

lemma load_fetch_checkpoint_resume:
  assumes "fs f = Some [checkpoint_data]"
    and "ck_complete checkpoint_data \<noteq> Some True"
  shows "load_fetch_checkpoint f fs
           = Inr (Start (get (ck_tracks checkpoint_data) []) (get (ck_next_offset checkpoint_data) 0))"
  using assms
  by (cases "ck_complete checkpoint_data")
     (auto simp: load_fetch_checkpoint_def exists_def json_load_def get_def)

lemma load_fetch_checkpoint_absent:
  "fs f = None \<Longrightarrow> load_fetch_checkpoint f fs = Inr (Start [] 0)"
  by (simp add: load_fetch_checkpoint_def exists_def)

lemma fetch_start_honest:
  assumes honest: "\<forall>t offset limit. playlist_tracks sp t playlist_id offset limit
      = Inr \<lparr>items = take limit (drop offset coll), total = length coll\<rparr>"
    and start: "load_fetch_checkpoint (fetch_checkpoint_file checkpoint_dir playlist_id) (files w)
      = Inr (Start acc offset)"
  shows "fst (fetch_playlist_tracks sp playlist_id checkpoint_dir w) = Inr (acc @ drop offset coll) \<and>
         calls (snd (fetch_playlist_tracks sp playlist_id checkpoint_dir w))
           = calls w @ Playlist_tracks playlist_id 0 1 #
               map (\<lambda>k. Playlist_tracks playlist_id (offset + k * 100) 100)
                 [0..<(length coll - offset + 99) div 100]"
proof -
  let ?f = "fetch_checkpoint_file checkpoint_dir playlist_id"
  let ?w1 = "w\<lparr>calls := calls w @ [Playlist_tracks playlist_id 0 1]\<rparr>"
  let ?L = "fetch_loop sp playlist_id ?f (length coll) offset acc ?w1"
  from fetch_loop_honest [OF honest, of ?f offset acc ?w1]
  obtain offset' where res: "fst ?L = Inr (acc @ drop offset coll, offset')"
    and cl: "calls (snd ?L) = calls ?w1 @ map (\<lambda>k. Playlist_tracks playlist_id (offset + k * 100) 100)
               [0..<(length coll - offset + 99) div 100]"
    by blast
  obtain r w2 where L: "?L = (r, w2)" by (cases ?L)
  from res L have r: "r = Inr (acc @ drop offset coll, offset')" by simp
  from cl L have w2: "calls w2 = calls w @ Playlist_tracks playlist_id 0 1 #
       map (\<lambda>k. Playlist_tracks playlist_id (offset + k * 100) 100)
         [0..<(length coll - offset + 99) div 100]" by simp
  have "fetch_playlist_tracks sp playlist_id checkpoint_dir w
      = (Inr (acc @ drop offset coll),
         save ?f (empty_checkpoint\<lparr>ck_tracks := Some (acc @ drop offset coll),
                    ck_next_offset := Some offset', ck_complete := Some True\<rparr>) w2)"
    using honest
    by (simp add: fetch_playlist_tracks_def start call_playlist_tracks_def L r Let_def
        del: One_nat_def)
  then show ?thesis by (simp add: w2)
qed

lemma fetch_probe_first:
  assumes start: "load_fetch_checkpoint (fetch_checkpoint_file checkpoint_dir playlist_id) (files w)
      = Inr (Start acc offset)"
  shows "\<exists>rest. calls (snd (fetch_playlist_tracks sp playlist_id checkpoint_dir w))
           = calls w @ Playlist_tracks playlist_id 0 1 # rest"
proof (cases "playlist_tracks sp (length (calls w)) playlist_id 0 1")
  case (Inl e)
  then show ?thesis
    by (simp add: fetch_playlist_tracks_def start call_playlist_tracks_def)
next
  case (Inr initial)
  let ?f = "fetch_checkpoint_file checkpoint_dir playlist_id"
  let ?w1 = "w\<lparr>calls := calls w @ [Playlist_tracks playlist_id 0 1]\<rparr>"
  let ?L = "fetch_loop sp playlist_id ?f (total initial) offset acc ?w1"
  from fetch_loop_calls_extend [of sp playlist_id ?f "total initial" offset acc ?w1]
  obtain rest where cl: "calls (snd ?L) = calls ?w1 @ rest" by blast
  obtain r w2 where L: "?L = (r, w2)" by (cases ?L)
  from cl L have w2: "calls w2 = calls w @ Playlist_tracks playlist_id 0 1 # rest" by simp
  have "calls (snd (fetch_playlist_tracks sp playlist_id checkpoint_dir w)) = calls w2"
    using Inr
    by (simp add: fetch_playlist_tracks_def start call_playlist_tracks_def L Let_def
        del: One_nat_def split: sum.splits prod.splits)
  with w2 show ?thesis by simp
qed

lemma pages_left: "(n - N * 100 + 99) div 100 = (n + 99) div 100 - (N::nat)"
  by simp

text \<open>
  C4. The remote serves the fixed collection \<open>coll\<close> without failing. A job whose
  checkpoint is not complete, has the cursor \<open>N * 100\<close> and holds the first \<open>N * 100\<close>
  items returns \<open>coll\<close>, which is also what a run with no checkpoint returns; after the
  probe for the total, its page calls start at offset \<open>N * 100\<close> and go up in steps of
  100, one for each page left.
\<close>

theorem fetch_resume_equals_uninterrupted:
  assumes "\<forall>t offset limit. playlist_tracks sp t playlist_id offset limit
      = Inr \<lparr>items = take limit (drop offset coll), total = length coll\<rparr>"
    and "files w (fetch_checkpoint_file checkpoint_dir playlist_id) = Some [checkpoint_data]"
    and "ck_complete checkpoint_data \<noteq> Some True"
    and "ck_tracks checkpoint_data = Some (take (N * 100) coll)"
    and "ck_next_offset checkpoint_data = Some (N * 100)"
    and "files w0 (fetch_checkpoint_file checkpoint_dir playlist_id) = None"
  shows "fst (fetch_playlist_tracks sp playlist_id checkpoint_dir w) = Inr coll \<and>
         fst (fetch_playlist_tracks sp playlist_id checkpoint_dir w0) = Inr coll \<and>
         calls (snd (fetch_playlist_tracks sp playlist_id checkpoint_dir w))
           = calls w @ Playlist_tracks playlist_id 0 1 #
               map (\<lambda>k. Playlist_tracks playlist_id (N * 100 + k * 100) 100)
                 [0..<(length coll + 99) div 100 - N]"
proof -
  let ?f = "fetch_checkpoint_file checkpoint_dir playlist_id"
  have resume: "load_fetch_checkpoint ?f (files w) = Inr (Start (take (N * 100) coll) (N * 100))"
    using load_fetch_checkpoint_resume [of "files w" ?f checkpoint_data] assms(2-5)
    by (simp add: get_def)
  have fresh: "load_fetch_checkpoint ?f (files w0) = Inr (Start [] 0)"
    using assms(6) by (rule load_fetch_checkpoint_absent)
  note a = fetch_start_honest [OF assms(1) resume]
  note b = fetch_start_honest [OF assms(1) fresh]
  from a b show ?thesis by (simp add: pages_left)
qed

theorem fetch_resume_equals_uninterrupted_witness:
  "fst (fetch_playlist_tracks (serve (\<lambda>p. [0..<150])) ''p'' ''ckpt''
      \<lparr>files = [fetch_checkpoint_file ''ckpt'' ''p'' \<mapsto>
         [empty_checkpoint\<lparr>ck_tracks := Some (take 100 [0..<150]), ck_next_offset := Some 100,
            ck_complete := Some False\<rparr>]],
       calls = []\<rparr>)
     = Inr [0..<150] \<and>
   fst (fetch_playlist_tracks (serve (\<lambda>p. [0..<150])) ''p'' ''ckpt''
      \<lparr>files = Map.empty, calls = []\<rparr>)
     = Inr [0..<150] \<and>
   calls (snd (fetch_playlist_tracks (serve (\<lambda>p. [0..<150])) ''p'' ''ckpt''
      \<lparr>files = [fetch_checkpoint_file ''ckpt'' ''p'' \<mapsto>
         [empty_checkpoint\<lparr>ck_tracks := Some (take 100 [0..<150]), ck_next_offset := Some 100,
            ck_complete := Some False\<rparr>]],
       calls = []\<rparr>))
     = [Playlist_tracks ''p'' 0 1, Playlist_tracks ''p'' 100 100]"
  using fetch_resume_equals_uninterrupted [of "serve (\<lambda>p. [0..<150])" "''p''" "[0..<150]"
      "\<lparr>files = [fetch_checkpoint_file ''ckpt'' ''p'' \<mapsto>
         [empty_checkpoint\<lparr>ck_tracks := Some (take 100 [0..<150]), ck_next_offset := Some 100,
            ck_complete := Some False\<rparr>]],
       calls = []\<rparr>"
      "''ckpt''"
      "empty_checkpoint\<lparr>ck_tracks := Some (take 100 [0..<150]), ck_next_offset := Some 100,
            ck_complete := Some False\<rparr>"
      1 "\<lparr>files = Map.empty, calls = []\<rparr>"]
  by (simp add: serve_def empty_checkpoint_def)

lemma load_fetch_checkpoint_unreadable:
  assumes "fs f = Some docs" and "length docs \<noteq> 1"
  shows "load_fetch_checkpoint f fs = Inl JSONDecodeError"
proof (cases docs)
  case Nil
  with assms show ?thesis
    by (simp add: load_fetch_checkpoint_def exists_def json_load_def)
next
  case (Cons d ds)
  with assms obtain d' ds' where "ds = d' # ds'" by (cases ds) auto
  with Cons assms show ?thesis
    by (simp add: load_fetch_checkpoint_def exists_def json_load_def)
qed

text \<open>
  C6, as the code has it. The one-item probe for the total is the first remote call of
  every invocation that starts fresh (no checkpoint file) or resumes from a checkpoint
  that is not marked complete, whatever the remote answers. An invocation that finds a
  checkpoint file it cannot read (empty, or holding more than one document) raises the
  decoding error and makes no remote call. In the scenario (250 items served without
  failure, cursor 200, the first 200 items in the checkpoint) the resumed invocation
  makes exactly two remote calls, the probe and the page at offset 200 with limit 100,
  and returns the 250 items.
\<close>

theorem fetch_resume_probes_again:
  "((files w (fetch_checkpoint_file checkpoint_dir playlist_id) = None \<or>
     (\<exists>checkpoint_data.
        files w (fetch_checkpoint_file checkpoint_dir playlist_id) = Some [checkpoint_data] \<and>
        ck_complete checkpoint_data \<noteq> Some True)) \<longrightarrow>
      (\<exists>rest. calls (snd (fetch_playlist_tracks sp playlist_id checkpoint_dir w))
         = calls w @ Playlist_tracks playlist_id 0 1 # rest)) \<and>
   ((\<exists>docs. files w (fetch_checkpoint_file checkpoint_dir playlist_id) = Some docs \<and>
        length docs \<noteq> 1) \<longrightarrow>
      fetch_playlist_tracks sp playlist_id checkpoint_dir w = (Inl JSONDecodeError, w)) \<and>
   ((\<forall>t offset limit. playlist_tracks sp t playlist_id offset limit
        = Inr \<lparr>items = take limit (drop offset coll), total = length coll\<rparr>) \<and>
    length coll = 250 \<and>
    files w (fetch_checkpoint_file checkpoint_dir playlist_id) = Some [resumed] \<and>
    ck_complete resumed \<noteq> Some True \<and>
    ck_tracks resumed = Some (take 200 coll) \<and>
    ck_next_offset resumed = Some 200 \<longrightarrow>
      calls (snd (fetch_playlist_tracks sp playlist_id checkpoint_dir w))
        = calls w @ [Playlist_tracks playlist_id 0 1, Playlist_tracks playlist_id 200 100] \<and>
      fst (fetch_playlist_tracks sp playlist_id checkpoint_dir w) = Inr coll \<and>
      length coll = 250)"
proof (intro conjI impI)
  let ?f = "fetch_checkpoint_file checkpoint_dir playlist_id"
  assume "files w ?f = None \<or>
     (\<exists>checkpoint_data. files w ?f = Some [checkpoint_data] \<and>
        ck_complete checkpoint_data \<noteq> Some True)"
  then have "\<exists>acc offset. load_fetch_checkpoint ?f (files w) = Inr (Start acc offset)"
    using load_fetch_checkpoint_absent [of "files w" ?f]
      load_fetch_checkpoint_resume [of "files w" ?f]
    by blast
  then obtain acc offset where "load_fetch_checkpoint ?f (files w) = Inr (Start acc offset)"
    by blast
  from fetch_probe_first [OF this]
  show "\<exists>rest. calls (snd (fetch_playlist_tracks sp playlist_id checkpoint_dir w))
            = calls w @ Playlist_tracks playlist_id 0 1 # rest" .
next
  let ?f = "fetch_checkpoint_file checkpoint_dir playlist_id"
  assume "\<exists>docs. files w ?f = Some docs \<and> length docs \<noteq> 1"
  then obtain docs where "files w ?f = Some docs" and "length docs \<noteq> 1" by blast
  from load_fetch_checkpoint_unreadable [of "files w" ?f docs, OF this]
  show "fetch_playlist_tracks sp playlist_id checkpoint_dir w = (Inl JSONDecodeError, w)"
    by (simp add: fetch_playlist_tracks_def)
next
  let ?f = "fetch_checkpoint_file checkpoint_dir playlist_id"
  assume scenario: "(\<forall>t offset limit. playlist_tracks sp t playlist_id offset limit
        = Inr \<lparr>items = take limit (drop offset coll), total = length coll\<rparr>) \<and>
    length coll = 250 \<and>
    files w ?f = Some [resumed] \<and>
    ck_complete resumed \<noteq> Some True \<and>
    ck_tracks resumed = Some (take 200 coll) \<and>
    ck_next_offset resumed = Some 200"
  then have honest: "\<forall>t offset limit. playlist_tracks sp t playlist_id offset limit
             = Inr \<lparr>items = take limit (drop offset coll), total = length coll\<rparr>"
    and len: "length coll = 250"
    and ckf: "files w ?f = Some [resumed]" "ck_complete resumed \<noteq> Some True"
    and buf: "ck_tracks resumed = Some (take 200 coll)" "ck_next_offset resumed = Some 200"
    by blast+
  have start: "load_fetch_checkpoint ?f (files w) = Inr (Start (take 200 coll) 200)"
    using load_fetch_checkpoint_resume [of "files w" ?f resumed, OF ckf] buf
    by (simp add: get_def)
  note r = fetch_start_honest [OF honest start]
  have pages: "[0..<(length coll - 200 + 99) div 100] = [0]"
    by (simp add: len)
  from r show "calls (snd (fetch_playlist_tracks sp playlist_id checkpoint_dir w))
            = calls w @ [Playlist_tracks playlist_id 0 1, Playlist_tracks playlist_id 200 100]"
    unfolding pages by simp
  from r show "fst (fetch_playlist_tracks sp playlist_id checkpoint_dir w) = Inr coll"
    by simp
  from len show "length coll = 250" .
qed

theorem fetch_resume_probes_again_witness:
  "calls (snd (fetch_playlist_tracks (serve (\<lambda>p. replicate 250 (7::nat))) ''p'' ''ckpt''
      \<lparr>files = [fetch_checkpoint_file ''ckpt'' ''p'' \<mapsto>
         [empty_checkpoint\<lparr>ck_tracks := Some (take 200 (replicate 250 7)),
            ck_next_offset := Some 200\<rparr>]],
       calls = []\<rparr>))
     = [Playlist_tracks ''p'' 0 1, Playlist_tracks ''p'' 200 100] \<and>
   fst (fetch_playlist_tracks (serve (\<lambda>p. replicate 250 (7::nat))) ''p'' ''ckpt''
      \<lparr>files = [fetch_checkpoint_file ''ckpt'' ''p'' \<mapsto>
         [empty_checkpoint\<lparr>ck_tracks := Some (take 200 (replicate 250 7)),
            ck_next_offset := Some 200\<rparr>]],
       calls = []\<rparr>)
     = Inr (replicate 250 7) \<and>
   hd (calls (snd (fetch_playlist_tracks (serve (\<lambda>p. replicate 250 (7::nat))) ''p'' ''ckpt''
      \<lparr>files = Map.empty, calls = []\<rparr>)))
     = Playlist_tracks ''p'' 0 1 \<and>
   fetch_playlist_tracks (serve (\<lambda>p. replicate 250 (7::nat))) ''p'' ''ckpt''
      \<lparr>files = [fetch_checkpoint_file ''ckpt'' ''p'' \<mapsto> []], calls = []\<rparr>
     = (Inl JSONDecodeError,
        \<lparr>files = [fetch_checkpoint_file ''ckpt'' ''p'' \<mapsto> []], calls = []\<rparr>)"
proof -
  let ?sp = "serve (\<lambda>p. replicate 250 (7::nat))"
  let ?ck = "empty_checkpoint\<lparr>ck_tracks := Some (take 200 (replicate 250 (7::nat))),
            ck_next_offset := Some 200\<rparr>"
  let ?w = "\<lparr>files = [fetch_checkpoint_file ''ckpt'' ''p'' \<mapsto> [?ck]], calls = []\<rparr>"
  let ?fresh = "\<lparr>files = Map.empty, calls = []\<rparr> :: nat world"
  let ?torn = "\<lparr>files = [fetch_checkpoint_file ''ckpt'' ''p'' \<mapsto> []], calls = []\<rparr> :: nat world"
  note resumed = fetch_resume_probes_again [where w = ?w and checkpoint_dir = "''ckpt''"
      and playlist_id = "''p''" and sp = ?sp and coll = "replicate 250 (7::nat)"
      and resumed = ?ck]
  have 1: "calls (snd (fetch_playlist_tracks ?sp ''p'' ''ckpt'' ?w))
       = [Playlist_tracks ''p'' 0 1, Playlist_tracks ''p'' 200 100] \<and>
     fst (fetch_playlist_tracks ?sp ''p'' ''ckpt'' ?w) = Inr (replicate 250 7)"
    using resumed by (simp add: serve_def empty_checkpoint_def)
  note fresh = fetch_resume_probes_again [where w = ?fresh and checkpoint_dir = "''ckpt''"
      and playlist_id = "''p''" and sp = ?sp]
  then have "\<exists>rest. calls (snd (fetch_playlist_tracks ?sp ''p'' ''ckpt'' ?fresh))
       = Playlist_tracks ''p'' 0 1 # rest"
    by simp
  then have 2: "hd (calls (snd (fetch_playlist_tracks ?sp ''p'' ''ckpt'' ?fresh)))
       = Playlist_tracks ''p'' 0 1"
    by auto
  note torn = fetch_resume_probes_again [where w = ?torn and checkpoint_dir = "''ckpt''"
      and playlist_id = "''p''" and sp = ?sp]
  then have 3: "fetch_playlist_tracks ?sp ''p'' ''ckpt'' ?torn = (Inl JSONDecodeError, ?torn)"
    by simp
  from 1 2 3 show ?thesis by simp
qed

text \<open>
  C6 as stated fails: in the scenario the resumed invocation makes two remote calls, not
  one; its call log is not the single page call at offset 200.
\<close>

theorem fetch_resume_two_calls_counterexample:
  "length (calls (snd (fetch_playlist_tracks (serve (\<lambda>p. [0..<250])) ''p'' ''ckpt''
      \<lparr>files = [fetch_checkpoint_file ''ckpt'' ''p'' \<mapsto>
         [empty_checkpoint\<lparr>ck_tracks := Some [0..<200], ck_next_offset := Some 200,
            ck_complete := Some False\<rparr>]],
       calls = []\<rparr>))) = 2 \<and>
   calls (snd (fetch_playlist_tracks (serve (\<lambda>p. [0..<250])) ''p'' ''ckpt''
      \<lparr>files = [fetch_checkpoint_file ''ckpt'' ''p'' \<mapsto>
         [empty_checkpoint\<lparr>ck_tracks := Some [0..<200], ck_next_offset := Some 200,
            ck_complete := Some False\<rparr>]],
       calls = []\<rparr>))
     \<noteq> [Playlist_tracks ''p'' 200 100]"
proof -
  let ?ck = "empty_checkpoint\<lparr>ck_tracks := Some [0..<200], ck_next_offset := Some 200,
            ck_complete := Some False\<rparr> :: nat checkpoint"
  let ?w = "\<lparr>files = [fetch_checkpoint_file ''ckpt'' ''p'' \<mapsto> [?ck]], calls = []\<rparr>"
  have start: "load_fetch_checkpoint (fetch_checkpoint_file ''ckpt'' ''p'') (files ?w)
      = Inr (Start [0..<200] 200)"
    using load_fetch_checkpoint_resume [of "files ?w" "fetch_checkpoint_file ''ckpt'' ''p''" ?ck]
    by (simp add: empty_checkpoint_def get_def)
  have honest: "\<forall>t offset limit. playlist_tracks (serve (\<lambda>p. [0..<250])) t ''p'' offset limit
      = Inr \<lparr>items = take limit (drop offset [0..<250]), total = length [0..<250]\<rparr>"
    by (simp add: serve_def)
  from fetch_start_honest [OF honest start]
  have "calls (snd (fetch_playlist_tracks (serve (\<lambda>p. [0..<250])) ''p'' ''ckpt'' ?w))
      = [Playlist_tracks ''p'' 0 1, Playlist_tracks ''p'' 200 100]"
    by simp
  then show ?thesis by simp
qed

section \<open>Properties of the ingestion run\<close>















section \<open>Properties of the deduplication query\<close>

lemma sql_max_upper: "Some t \<in> set xs \<Longrightarrow> \<exists>u. sql_max xs = Some u \<and> t \<le> u"
  by (induction xs rule: sql_max.induct) (auto split: option.splits)

lemma sql_max_attained: "sql_max xs = Some u \<Longrightarrow> Some u \<in> set xs"
  by (induction xs arbitrary: u rule: sql_max.induct) (auto split: option.splits simp: max_def)

lemma group_key_group_row [simp]: "group_key (group_row db k) = k"
  by (cases "(db, k)" rule: group_row.cases) (simp add: group_key_def)

lemma added_at_group_row [simp]:
  "added_at (group_row db k) = sql_max (map added_at (filter (\<lambda>r. group_key r = k) db))"
  by (cases "(db, k)" rule: group_row.cases) simp

lemma id_group_key: "fst (group_key r) = id' r"
  by (simp add: group_key_def)

lemma id_group_row [simp]: "id' (group_row db k) = fst k"
  using id_group_key [of "group_row db k"] by simp

lemma set_group_by: "set (group_by db) = (\<lambda>s. group_row db (group_key s)) ` set db"
  by (auto simp: group_by_def)

lemma distinct_on_id_subset: "set (distinct_on_id seen rs) \<subseteq> set rs"
  by (induction rs arbitrary: seen) auto

lemma distinct_on_id_ids: "id' ` set (distinct_on_id seen rs) = id' ` set rs - set seen"
  by (induction rs arbitrary: seen) auto

lemma distinct_on_id_distinct: "distinct (map id' (distinct_on_id seen rs))"
proof (induction rs arbitrary: seen)
  case Nil
  show ?case by simp
next
  case (Cons r rs)
  have "id' r \<notin> id' ` set (distinct_on_id (id' r # seen) rs)"
    by (simp add: distinct_on_id_ids)
  with Cons show ?case by simp
qed

lemma dedup_subset: "set (get_deduplicated_tracks db) \<subseteq> set (group_by db)"
  using distinct_on_id_subset [of "[]" "sort_key order_key (group_by db)"]
  by (simp add: get_deduplicated_tracks_def)

lemma dedup_ids: "id' ` set (get_deduplicated_tracks db) = id' ` set db"
proof -
  have "id' ` set (get_deduplicated_tracks db) = id' ` set (group_by db)"
    by (simp add: get_deduplicated_tracks_def distinct_on_id_ids)
  also have "\<dots> = id' ` set db"
    by (simp add: set_group_by image_image id_group_key)
  finally show ?thesis .
qed

lemma dedup_distinct: "distinct (map id' (get_deduplicated_tracks db))"
  by (simp add: get_deduplicated_tracks_def distinct_on_id_distinct)

lemma dedup_group:
  assumes "r \<in> set (get_deduplicated_tracks db)"
  shows "\<exists>s\<in>set db. group_key s = group_key r"
    and "\<And>s t. s \<in> set db \<Longrightarrow> group_key s = group_key r \<Longrightarrow> added_at s = Some t
           \<Longrightarrow> \<exists>u. added_at r = Some u \<and> t \<le> u"
    and "\<And>u. added_at r = Some u \<Longrightarrow> \<exists>s\<in>set db. group_key s = group_key r \<and> added_at s = Some u"
proof -
  from assms dedup_subset have "r \<in> set (group_by db)" by blast
  then obtain s0 where s0: "s0 \<in> set db" and r: "r = group_row db (group_key s0)"
    by (auto simp: set_group_by)
  have key: "group_key r = group_key s0" by (simp add: r)
  have at: "added_at r = sql_max (map added_at (filter (\<lambda>x. group_key x = group_key r) db))"
    by (simp add: r)
  show "\<exists>s\<in>set db. group_key s = group_key r"
    using s0 key by auto
  show "\<exists>u. added_at r = Some u \<and> t \<le> u"
    if "s \<in> set db" and "group_key s = group_key r" and "added_at s = Some t" for s t
  proof -
    from that have "Some t \<in> set (map added_at (filter (\<lambda>x. group_key x = group_key r) db))"
      by force
    from sql_max_upper [OF this] show ?thesis by (simp add: at)
  qed
  show "\<exists>s\<in>set db. group_key s = group_key r \<and> added_at s = Some u"
    if "added_at r = Some u" for u
  proof -
    from that at
    have "sql_max (map added_at (filter (\<lambda>x. group_key x = group_key r) db)) = Some u"
      by simp
    from sql_max_attained [OF this] show ?thesis by auto
  qed
qed

lemma filter_distinct_key:
  "distinct (map f xs) \<Longrightarrow> x \<in> set xs \<Longrightarrow> filter (\<lambda>y. f y = f x) xs = [x]"
proof (induction xs)
  case Nil
  then show ?case by simp
next
  case (Cons a xs)
  show ?case
  proof (cases "a = x")
    case True
    from Cons.prems have "f x \<notin> f ` set xs" using True by simp
    then have "\<forall>y\<in>set xs. f y \<noteq> f x" by (metis imageI)
    then have "filter (\<lambda>y. f y = f x) xs = []"
      by (simp add: filter_empty_conv)
    with True show ?thesis by simp
  next
    case False
    with Cons.prems have x: "x \<in> set xs" and d: "distinct (map f xs)" and "f a \<notin> f ` set xs"
      by auto
    then have "f a \<noteq> f x" by auto
    with Cons.IH [OF d x] show ?thesis by simp
  qed
qed

lemma dedup_single_group:
  assumes s0: "s0 \<in> set db"
    and agree: "\<forall>s\<in>set db. id' s = id' s0 \<longrightarrow> group_key s = group_key s0"
  shows "\<exists>r. filter (\<lambda>r. id' r = id' s0) (get_deduplicated_tracks db) = [r] \<and>
           group_key r = group_key s0 \<and>
           (\<forall>s\<in>set db. \<forall>t. id' s = id' s0 \<and> added_at s = Some t
               \<longrightarrow> (\<exists>u. added_at r = Some u \<and> t \<le> u)) \<and>
           (\<forall>u. added_at r = Some u
               \<longrightarrow> (\<exists>s\<in>set db. id' s = id' s0 \<and> added_at s = Some u))"
proof -
  from s0 have "id' s0 \<in> id' ` set (get_deduplicated_tracks db)"
    by (simp add: dedup_ids)
  then obtain r where r: "r \<in> set (get_deduplicated_tracks db)" and id: "id' r = id' s0"
    by auto
  from filter_distinct_key [OF dedup_distinct r]
  have single: "filter (\<lambda>r. id' r = id' s0) (get_deduplicated_tracks db) = [r]"
    by (simp add: id)
  from dedup_group(1) [OF r] obtain s where s: "s \<in> set db" and ks: "group_key s = group_key r"
    by blast
  have "id' s = id' r"
    using id_group_key [of s] id_group_key [of r] ks by simp
  with agree s id have "group_key s = group_key s0" by simp
  with ks have key: "group_key r = group_key s0" by simp
  have same: "group_key x = group_key r \<longleftrightarrow> id' x = id' s0" if "x \<in> set db" for x
  proof
    assume "group_key x = group_key r"
    then show "id' x = id' s0"
      using id_group_key [of x] id_group_key [of r] id by simp
  next
    assume "id' x = id' s0"
    with agree that key show "group_key x = group_key r" by simp
  qed
  have upper: "\<exists>u. added_at r = Some u \<and> t \<le> u"
    if "x \<in> set db" and "id' x = id' s0" and "added_at x = Some t" for x t
    using dedup_group(2) [OF r that(1) _ that(3)] same [OF that(1)] that(2) by blast
  have attained: "\<exists>x\<in>set db. id' x = id' s0 \<and> added_at x = Some u"
    if "added_at r = Some u" for u
    using dedup_group(3) [OF r that] same by blast
  from single key upper attained show ?thesis by blast
qed

lemma dedup_two_sources:
  assumes s1: "s1 \<in> set db" and s2: "s2 \<in> set db"
    and key: "group_key s1 = group_key s2"
    and t1: "added_at s1 = Some t1" and t2: "added_at s2 = Some t2"
    and only: "\<forall>s\<in>set db. id' s = id' s1 \<longrightarrow> s = s1 \<or> s = s2"
  shows "\<exists>r. filter (\<lambda>r. id' r = id' s1) (get_deduplicated_tracks db) = [r] \<and>
           group_key r = group_key s1 \<and> added_at r = Some (max t1 t2)"
proof -
  have id2: "id' s2 = id' s1"
    using id_group_key [of s1] id_group_key [of s2] key by simp
  have agree: "\<forall>s\<in>set db. id' s = id' s1 \<longrightarrow> group_key s = group_key s1"
    using only key by auto
  from dedup_single_group [OF s1 agree] obtain r where
    single: "filter (\<lambda>r. id' r = id' s1) (get_deduplicated_tracks db) = [r]"
    and k: "group_key r = group_key s1"
    and upper: "\<forall>s\<in>set db. \<forall>t. id' s = id' s1 \<and> added_at s = Some t
               \<longrightarrow> (\<exists>u. added_at r = Some u \<and> t \<le> u)"
    and attained: "\<forall>u. added_at r = Some u
               \<longrightarrow> (\<exists>s\<in>set db. id' s = id' s1 \<and> added_at s = Some u)"
    by blast
  from upper s1 t1 obtain u where u: "added_at r = Some u" and u1: "t1 \<le> u" by blast
  from upper s2 t2 id2 u have u2: "t2 \<le> u" by fastforce
  from attained u obtain s where "s \<in> set db" "id' s = id' s1" "added_at s = Some u" by blast
  with only t1 t2 have "u = t1 \<or> u = t2" by auto
  with u1 u2 have "u = max t1 t2" by auto
  with single k u show ?thesis by blast
qed

text \<open>
  C1, as the code has it. The result of the deduplication query has exactly one row for
  each id in the store (not one for each identity). Each row of the result agrees with
  some stored row on the eleven grouping columns, and its \<open>added_at\<close> is the maximum of
  \<open>added_at\<close> over the stored rows that agree with it on all eleven: no such row has a
  later one, and the value is that of one of them. When all the stored rows of an id
  agree on the eleven columns, the one row of that id in the result has these columns and
  the maximum of \<open>added_at\<close> over all the stored rows of the id; in particular, when the
  stored rows of an id are two rows that agree on the eleven columns, with the timestamps
  \<open>t1\<close> and \<open>t2\<close>, the one row of that id carries the later of the two.
\<close>

theorem get_deduplicated_tracks_by_id:
  "distinct (map id' (get_deduplicated_tracks db)) \<and>
   id' ` set (get_deduplicated_tracks db) = id' ` set db \<and>
   (\<forall>r\<in>set (get_deduplicated_tracks db).
      (\<exists>s\<in>set db. group_key s = group_key r) \<and>
      (\<forall>s\<in>set db. \<forall>t. group_key s = group_key r \<and> added_at s = Some t
          \<longrightarrow> (\<exists>u. added_at r = Some u \<and> t \<le> u)) \<and>
      (\<forall>u. added_at r = Some u
          \<longrightarrow> (\<exists>s\<in>set db. group_key s = group_key r \<and> added_at s = Some u))) \<and>
   (\<forall>s0\<in>set db. (\<forall>s\<in>set db. id' s = id' s0 \<longrightarrow> group_key s = group_key s0) \<longrightarrow>
      (\<exists>r. filter (\<lambda>r. id' r = id' s0) (get_deduplicated_tracks db) = [r] \<and>
           group_key r = group_key s0 \<and>
           (\<forall>s\<in>set db. \<forall>t. id' s = id' s0 \<and> added_at s = Some t
               \<longrightarrow> (\<exists>u. added_at r = Some u \<and> t \<le> u)) \<and>
           (\<forall>u. added_at r = Some u
               \<longrightarrow> (\<exists>s\<in>set db. id' s = id' s0 \<and> added_at s = Some u)))) \<and>
   (\<forall>s1\<in>set db. \<forall>s2\<in>set db. \<forall>t1 t2.
      group_key s1 = group_key s2 \<and> added_at s1 = Some t1 \<and> added_at s2 = Some t2 \<and>
      (\<forall>s\<in>set db. id' s = id' s1 \<longrightarrow> s = s1 \<or> s = s2) \<longrightarrow>
      (\<exists>r. filter (\<lambda>r. id' r = id' s1) (get_deduplicated_tracks db) = [r] \<and>
           group_key r = group_key s1 \<and> added_at r = Some (max t1 t2)))"
proof (intro conjI)
  show "distinct (map id' (get_deduplicated_tracks db))"
    by (rule dedup_distinct)
  show "id' ` set (get_deduplicated_tracks db) = id' ` set db"
    by (rule dedup_ids)
  show "\<forall>r\<in>set (get_deduplicated_tracks db).
      (\<exists>s\<in>set db. group_key s = group_key r) \<and>
      (\<forall>s\<in>set db. \<forall>t. group_key s = group_key r \<and> added_at s = Some t
          \<longrightarrow> (\<exists>u. added_at r = Some u \<and> t \<le> u)) \<and>
      (\<forall>u. added_at r = Some u
          \<longrightarrow> (\<exists>s\<in>set db. group_key s = group_key r \<and> added_at s = Some u))"
    using dedup_group by blast
  show "\<forall>s0\<in>set db. (\<forall>s\<in>set db. id' s = id' s0 \<longrightarrow> group_key s = group_key s0) \<longrightarrow>
      (\<exists>r. filter (\<lambda>r. id' r = id' s0) (get_deduplicated_tracks db) = [r] \<and>
           group_key r = group_key s0 \<and>
           (\<forall>s\<in>set db. \<forall>t. id' s = id' s0 \<and> added_at s = Some t
               \<longrightarrow> (\<exists>u. added_at r = Some u \<and> t \<le> u)) \<and>
           (\<forall>u. added_at r = Some u
               \<longrightarrow> (\<exists>s\<in>set db. id' s = id' s0 \<and> added_at s = Some u)))"
    using dedup_single_group by blast
  show "\<forall>s1\<in>set db. \<forall>s2\<in>set db. \<forall>t1 t2.
      group_key s1 = group_key s2 \<and> added_at s1 = Some t1 \<and> added_at s2 = Some t2 \<and>
      (\<forall>s\<in>set db. id' s = id' s1 \<longrightarrow> s = s1 \<or> s = s2) \<longrightarrow>
      (\<exists>r. filter (\<lambda>r. id' r = id' s1) (get_deduplicated_tracks db) = [r] \<and>
           group_key r = group_key s1 \<and> added_at r = Some (max t1 t2))"
    using dedup_two_sources by blast
qed

theorem get_deduplicated_tracks_by_id_witness:
  "get_deduplicated_tracks
     [\<lparr>id' = ''x'', name = Some ''Song'', artist = Some ''Band'', artist_id = None,
       album = None, album_id = None, release_date = None, duration_ms = None,
       popularity = None, explicit = Some False, isrc = None, added_at = Some 1,
       playlist_source = ''A''\<rparr>,
      \<lparr>id' = ''x'', name = Some ''Song'', artist = Some ''Band'', artist_id = None,
       album = None, album_id = None, release_date = None, duration_ms = None,
       popularity = None, explicit = Some False, isrc = None, added_at = Some 2,
       playlist_source = ''B''\<rparr>]
   = [\<lparr>id' = ''x'', name = Some ''Song'', artist = Some ''Band'', artist_id = None,
       album = None, album_id = None, release_date = None, duration_ms = None,
       popularity = None, explicit = Some False, isrc = None, added_at = Some 2\<rparr>]"
  using get_deduplicated_tracks_by_id [of
     "[\<lparr>id' = ''x'', name = Some ''Song'', artist = Some ''Band'', artist_id = None,
       album = None, album_id = None, release_date = None, duration_ms = None,
       popularity = None, explicit = Some False, isrc = None, added_at = Some 1,
       playlist_source = ''A''\<rparr>,
      \<lparr>id' = ''x'', name = Some ''Song'', artist = Some ''Band'', artist_id = None,
       album = None, album_id = None, release_date = None, duration_ms = None,
       popularity = None, explicit = Some False, isrc = None, added_at = Some 2,
       playlist_source = ''B''\<rparr>]"]
  by (simp add: get_deduplicated_tracks_def group_by_def group_key_def)

text \<open>
  C1 as stated fails: two sources hold the track \<open>x\<close> under two display names, so the
  store has two identities; the identity of the second row occurs in the store, and the
  result is a single row, which has the first row's identity and the earlier timestamp.
\<close>

theorem get_deduplicated_tracks_identity_counterexample:
  "identity \<lparr>id' = ''x'', name = Some ''Song (Remastered)'', artist = Some ''Band'', artist_id = None,
       album = None, album_id = None, release_date = None, duration_ms = None,
       popularity = None, explicit = Some False, isrc = None, added_at = Some 2,
       playlist_source = ''B''\<rparr>
     \<in> identity ` set
     [\<lparr>id' = ''x'', name = Some ''Song'', artist = Some ''Band'', artist_id = None,
       album = None, album_id = None, release_date = None, duration_ms = None,
       popularity = None, explicit = Some False, isrc = None, added_at = Some 1,
       playlist_source = ''A''\<rparr>,
      \<lparr>id' = ''x'', name = Some ''Song (Remastered)'', artist = Some ''Band'', artist_id = None,
       album = None, album_id = None, release_date = None, duration_ms = None,
       popularity = None, explicit = Some False, isrc = None, added_at = Some 2,
       playlist_source = ''B''\<rparr>] \<and>
   get_deduplicated_tracks
     [\<lparr>id' = ''x'', name = Some ''Song'', artist = Some ''Band'', artist_id = None,
       album = None, album_id = None, release_date = None, duration_ms = None,
       popularity = None, explicit = Some False, isrc = None, added_at = Some 1,
       playlist_source = ''A''\<rparr>,
      \<lparr>id' = ''x'', name = Some ''Song (Remastered)'', artist = Some ''Band'', artist_id = None,
       album = None, album_id = None, release_date = None, duration_ms = None,
       popularity = None, explicit = Some False, isrc = None, added_at = Some 2,
       playlist_source = ''B''\<rparr>]
   = [\<lparr>id' = ''x'', name = Some ''Song'', artist = Some ''Band'', artist_id = None,
       album = None, album_id = None, release_date = None, duration_ms = None,
       popularity = None, explicit = Some False, isrc = None, added_at = Some 1\<rparr>]"
  by (simp add: get_deduplicated_tracks_def group_by_def group_key_def identity_def
      order_key_def nulls_last_def)

end
